theory Spec2Isabelle
  imports Main "HOL-Library.Multiset"
begin

section \<open>Data model (blog/models.py)\<close>

text \<open>
  Timestamps are integers (a point on the clock), primary keys are integers.
  Every Django model has an automatic primary key; it is the field \<open>pk\<close> of the
  abstract base, which \<open>Category\<close>, \<open>Location\<close> and \<open>Post\<close> extend as the Python
  classes extend \<open>BaseBlogMeta\<close>.
\<close>

record BaseBlogMeta =
  pk :: int
  is_published :: bool
  created_at :: int

record Category = BaseBlogMeta +
  title :: string
  description :: string
  slug :: string

record Location = BaseBlogMeta +
  loc_name :: string

record User =
  user_pk :: int
  username :: string

text \<open>
  The foreign keys of \<open>Post\<close> are stored as the key of the row they refer to:
  \<open>author_id\<close> is required, \<open>location_id\<close> and \<open>category_id\<close> are nullable
  (\<open>null=True\<close>).
\<close>

record Post = BaseBlogMeta +
  post_title :: string
  post_text :: string
  pub_date :: int
  author_id :: int
  location_id :: "int option"
  category_id :: "int option"

text \<open>
  The database: one table per model. A table is the list of its rows in the order
  in which the database scans them (by primary key in SQLite).
\<close>

record store =
  users :: "User list"
  categories :: "Category list"
  locations :: "Location list"
  posts :: "Post list"

text \<open>
  What the database itself enforces: primary keys and the unique slug are
  unique, and a foreign key that is set refers to an existing row.
\<close>

definition wf_store :: "store \<Rightarrow> bool" where
  "wf_store st \<longleftrightarrow>
     distinct (map user_pk (users st)) \<and>
     distinct (map pk (categories st)) \<and>
     distinct (map slug (categories st)) \<and>
     distinct (map pk (locations st)) \<and>
     distinct (map pk (posts st)) \<and>
     (\<forall>p \<in> set (posts st).
        author_id p \<in> set (map user_pk (users st)) \<and>
        (case location_id p of None \<Rightarrow> True
         | Some l \<Rightarrow> l \<in> set (map pk (locations st))) \<and>
        (case category_id p of None \<Rightarrow> True
         | Some c \<Rightarrow> c \<in> set (map pk (categories st))))"

subsection \<open>Field defaults and object creation\<close>

text \<open>
  \<open>is_published = models.BooleanField(default=True)\<close>: a field the caller does not
  pass takes its default; \<open>created_at\<close> has \<open>auto_now_add\<close>, so it is the clock
  reading at creation.
\<close>

definition is_published_default :: bool where
  "is_published_default = True"

definition field_or_default :: "'a option \<Rightarrow> 'a \<Rightarrow> 'a" where
  "field_or_default given dflt = (case given of None \<Rightarrow> dflt | Some v \<Rightarrow> v)"

definition Category_create ::
  "int \<Rightarrow> int \<Rightarrow> bool option \<Rightarrow> string \<Rightarrow> string \<Rightarrow> string \<Rightarrow> Category" where
  "Category_create key now flag t d s =
     \<lparr>pk = key, is_published = field_or_default flag is_published_default,
      created_at = now, title = t, description = d, slug = s\<rparr>"

definition Location_create :: "int \<Rightarrow> int \<Rightarrow> bool option \<Rightarrow> string \<Rightarrow> Location" where
  "Location_create key now flag n =
     \<lparr>pk = key, is_published = field_or_default flag is_published_default,
      created_at = now, loc_name = n\<rparr>"

definition Post_create ::
  "int \<Rightarrow> int \<Rightarrow> bool option \<Rightarrow> string \<Rightarrow> string \<Rightarrow> int \<Rightarrow> int \<Rightarrow> int option \<Rightarrow> int option
     \<Rightarrow> Post" where
  "Post_create key now flag t body pd a l c =
     \<lparr>pk = key, is_published = field_or_default flag is_published_default,
      created_at = now, post_title = t, post_text = body, pub_date = pd,
      author_id = a, location_id = l, category_id = c\<rparr>"

subsection \<open>Meta.ordering\<close>

text \<open>
  \<open>ordering = ('created_at',)\<close> is ascending, \<open>ordering = ('-pub_date',)\<close> is
  descending. ORDER BY is a sort of the table rows on the key. The database leaves
  the order of rows with equal keys open; here they stay in scan order.
\<close>

datatype direction = Asc | Desc

fun order_by :: "direction \<times> ('a \<Rightarrow> int) \<Rightarrow> 'a list \<Rightarrow> 'a list" where
  "order_by (Asc, f) xs = sort_key f xs"
| "order_by (Desc, f) xs = sort_key (\<lambda>x. - f x) xs"

definition BaseBlogMeta_Meta_ordering :: "direction \<times> ('a BaseBlogMeta_scheme \<Rightarrow> int)" where
  "BaseBlogMeta_Meta_ordering = (Asc, created_at)"

text \<open>\<open>class Meta(BaseBlogMeta.Meta)\<close> with no ordering of its own inherits it.\<close>

definition Category_Meta_ordering :: "direction \<times> (Category \<Rightarrow> int)" where
  "Category_Meta_ordering = BaseBlogMeta_Meta_ordering"

definition Location_Meta_ordering :: "direction \<times> (Location \<Rightarrow> int)" where
  "Location_Meta_ordering = BaseBlogMeta_Meta_ordering"

definition Post_Meta_ordering :: "direction \<times> (Post \<Rightarrow> int)" where
  "Post_Meta_ordering = (Desc, pub_date)"

text \<open>The default manager \<open>objects = models.Manager()\<close>: every row, in Meta order.\<close>

definition Category_objects_all :: "store \<Rightarrow> Category list" where
  "Category_objects_all st = order_by Category_Meta_ordering (categories st)"

definition Location_objects_all :: "store \<Rightarrow> Location list" where
  "Location_objects_all st = order_by Location_Meta_ordering (locations st)"

definition Post_objects_all :: "store \<Rightarrow> Post list" where
  "Post_objects_all st = order_by Post_Meta_ordering (posts st)"

section \<open>The published manager (PublishedPostsManager)\<close>

text \<open>
  A \<open>Post\<close> object fetched with \<open>select_related('author', 'category', 'location')\<close>
  carries the rows its foreign keys refer to. Each is found by primary key.
  \<open>author\<close> is a required key, joined with an inner join: a post whose author row is
  missing yields no result row. \<open>category\<close> and \<open>location\<close> are nullable, joined
  with a left join: the attribute is \<open>None\<close> when the key is null.
\<close>

record PostInstance =
  row :: Post
  author :: User
  category :: "Category option"
  location :: "Location option"

definition join_row :: "store \<Rightarrow> Post \<Rightarrow> PostInstance option" where
  "join_row st p =
     (case List.find (\<lambda>u. user_pk u = author_id p) (users st) of
        None \<Rightarrow> None
      | Some u \<Rightarrow>
          Some \<lparr>row = p, author = u,
                category = (case category_id p of None \<Rightarrow> None
                            | Some c \<Rightarrow> List.find (\<lambda>x. pk x = c) (categories st)),
                location = (case location_id p of None \<Rightarrow> None
                            | Some l \<Rightarrow> List.find (\<lambda>x. pk x = l) (locations st))\<rparr>)"

definition select_related :: "store \<Rightarrow> Post list \<Rightarrow> PostInstance list" where
  "select_related st ps = List.map_filter (join_row st) ps"

text \<open>
  \<open>get_queryset\<close>: the base queryset, \<open>select_related\<close>, then
  \<open>filter(is_published=True, pub_date__lt=now(), category__is_published=True)\<close>.
  The lookup \<open>category__is_published=True\<close> is a condition on the joined category row,
  so a post with no category row does not satisfy it. \<open>now\<close> is the value of
  \<open>now()\<close> at the call.
\<close>

definition get_queryset :: "store \<Rightarrow> int \<Rightarrow> PostInstance list" where
  "get_queryset st now =
     filter (\<lambda>r. is_published (row r) \<and> pub_date (row r) < now \<and>
                 (case category r of None \<Rightarrow> False | Some c \<Rightarrow> is_published c))
       (select_related st (Post_objects_all st))"

section \<open>The views (blog/views.py)\<close>

datatype error = Http404 | MultipleObjectsReturned | OverflowError

text \<open>
  The database holds signed 64-bit integers. An integer outside that range cannot be
  bound as a query parameter: the database adapter raises \<open>OverflowError\<close>.
\<close>

definition db_integer :: "int \<Rightarrow> bool" where
  "db_integer i \<longleftrightarrow> - (2 ^ 63) \<le> i \<and> i < 2 ^ 63"

text \<open>
  \<open>get_object_or_404(qs, **cond)\<close> is \<open>qs.get(**cond)\<close> with \<open>DoesNotExist\<close> turned
  into \<open>Http404\<close>; \<open>get\<close> raises \<open>MultipleObjectsReturned\<close> when several rows match.
\<close>

definition get_object_or_404 :: "'a list \<Rightarrow> ('a \<Rightarrow> bool) \<Rightarrow> error + 'a" where
  "get_object_or_404 qs cond =
     (case filter cond qs of
        [] \<Rightarrow> Inl Http404
      | [x] \<Rightarrow> Inr x
      | _ \<Rightarrow> Inl MultipleObjectsReturned)"

text \<open>
  The context is a dictionary from names to objects; \<open>render\<close> belongs to the
  framework, and the response is kept as the template name and the context handed to it.
\<close>

datatype ctx_value =
  PostList "PostInstance list"
| PostObj PostInstance
| CategoryObj Category

record response =
  template_name :: string
  context_dict :: "string \<rightharpoonup> ctx_value"

definition render :: "string \<Rightarrow> (string \<rightharpoonup> ctx_value) \<Rightarrow> response" where
  "render tpl ctx = \<lparr>template_name = tpl, context_dict = ctx\<rparr>"

text \<open>
  A view runs against the database and returns its outcome with the database as
  it leaves it. A query evaluates on the store and hands it on.
\<close>

definition db_read :: "(store \<Rightarrow> 'a) \<Rightarrow> store \<Rightarrow> 'a \<times> store" where
  "db_read q st = (q st, st)"

text \<open>
  \<open>index\<close>: \<open>Post.published.all()[:settings.POSTS_BY_PAGE]\<close>. The setting is not in
  the sources and is a parameter; a slice bound of a queryset is never negative.
\<close>

definition index :: "store \<Rightarrow> int \<Rightarrow> nat \<Rightarrow> (error + response) \<times> store" where
  "index st now POSTS_BY_PAGE =
     (let (post, st1) = db_read (\<lambda>s. take POSTS_BY_PAGE (get_queryset s now)) st;
          ctx = [''post_list'' \<mapsto> PostList post]
      in (Inr (render ''blog/index.html'' ctx), st1))"

text \<open>
  \<open>post_detail\<close>: \<open>get_object_or_404(Post.published.all(), id=post_id)\<close>. The id
  is a parameter of the query, so it has to be a database integer.
\<close>

definition post_detail :: "store \<Rightarrow> int \<Rightarrow> int \<Rightarrow> (error + response) \<times> store" where
  "post_detail st now post_id =
     (if \<not> db_integer post_id then (Inl OverflowError, st)
      else
        (case db_read (\<lambda>s. get_object_or_404 (get_queryset s now)
                              (\<lambda>r. pk (row r) = post_id)) st of
           (Inl e, st1) \<Rightarrow> (Inl e, st1)
         | (Inr post, st1) \<Rightarrow>
             (Inr (render ''blog/detail.html'' [''post'' \<mapsto> PostObj post]), st1)))"

definition category_posts :: "store \<Rightarrow> int \<Rightarrow> string \<Rightarrow> (error + response) \<times> store" where
  "category_posts st now category_slug =
     (case db_read (\<lambda>s. get_object_or_404 (Category_objects_all s)
                           (\<lambda>c. slug c = category_slug \<and> is_published c)) st of
        (Inl e, st1) \<Rightarrow> (Inl e, st1)
      | (Inr cat, st1) \<Rightarrow>
          (let (post, st2) =
                 db_read (\<lambda>s. filter (\<lambda>r. case category r of None \<Rightarrow> False
                                           | Some c \<Rightarrow> slug c = category_slug)
                                 (get_queryset s now)) st1;
               ctx = [''category'' \<mapsto> CategoryObj cat, ''post_list'' \<mapsto> PostList post]
           in (Inr (render ''blog/category.html'' ctx), st2)))"

text \<open>The posts a response lists: the \<open>post_list\<close> entry of its context.\<close>

definition post_list_of :: "(error + response) \<times> store \<Rightarrow> PostInstance list" where
  "post_list_of res =
     (case fst res of
        Inl e \<Rightarrow> []
      | Inr resp \<Rightarrow>
          (case context_dict resp ''post_list'' of
             Some (PostList ps) \<Rightarrow> ps
           | _ \<Rightarrow> []))"

section \<open>Example stores\<close>

definition user1 :: User where
  "user1 = \<lparr>user_pk = 1, username = ''ann''\<rparr>"

definition cat_news :: Category where
  "cat_news = Category_create 1 0 None ''News'' ''All the news'' ''news''"

definition cat_hidden :: Category where
  "cat_hidden = Category_create 2 0 (Some False) ''Drafts'' ''Not shown'' ''drafts''"

definition post_a :: Post where
  "post_a = Post_create 1 1 None ''A'' ''yesterday'' 90 1 None (Some 1)"

definition post_b :: Post where
  "post_b = Post_create 2 2 None ''B'' ''tomorrow'' 110 1 None (Some 1)"

definition post_e :: Post where
  "post_e = Post_create 3 3 None ''E'' ''in a hidden category'' 80 1 None (Some 2)"

definition post_n :: Post where
  "post_n = Post_create 4 4 None ''N'' ''no category'' 70 1 None None"

definition post_t :: Post where
  "post_t = Post_create 5 5 None ''T'' ''same date as A'' 90 1 None (Some 1)"

definition demo_store :: store where
  "demo_store = \<lparr>users = [user1], categories = [cat_news, cat_hidden], locations = [],
                  posts = [post_a, post_b, post_e, post_n, post_t]\<rparr>"

lemmas demo_defs =
  demo_store_def user1_def cat_news_def cat_hidden_def post_a_def post_b_def post_e_def
  post_n_def post_t_def Post_create_def Category_create_def field_or_default_def
  is_published_default_def

lemmas query_defs =
  get_queryset_def select_related_def join_row_def Post_objects_all_def Post_Meta_ordering_def

section \<open>Auxiliary facts\<close>

lemma set_order_by: "set (order_by ord xs) = set xs"
  by (cases ord; cases "fst ord") auto

lemma length_order_by: "length (order_by ord xs) = length xs"
  by (cases ord; cases "fst ord") auto

lemma mset_order_by: "mset (order_by ord xs) = mset xs"
  by (cases ord; cases "fst ord") auto

lemma distinct_map_order_by: "distinct (map f (order_by ord xs)) = distinct (map f xs)"
proof -
  have "mset (map f (order_by ord xs)) = mset (map f xs)"
    by (simp add: mset_order_by)
  then show ?thesis by (rule mset_eq_imp_distinct_iff)
qed

lemma sorted_order_by_Asc: "sorted (map f (order_by (Asc, f) xs))"
  by simp

lemma sorted_order_by_Desc: "sorted_wrt (\<lambda>a b. f b \<le> f a) (order_by (Desc, f) xs)"
proof -
  have "sorted (map (\<lambda>x. - f x) (sort_key (\<lambda>x. - f x) xs))"
    by (rule sorted_sort_key)
  then show ?thesis by (simp add: sorted_map)
qed

lemma find_distinct_key:
  "distinct (map k xs) \<Longrightarrow> x \<in> set xs \<Longrightarrow> List.find (\<lambda>y. k y = k x) xs = Some x"
  by (induction xs) (auto simp: rev_image_eqI)

lemma find_SomeD: "List.find P xs = Some x \<Longrightarrow> x \<in> set xs \<and> P x"
  by (induction xs) (auto split: if_splits)

lemma join_row_row: "join_row st p = Some r \<Longrightarrow> row r = p"
  by (auto simp: join_row_def split: option.splits)

lemma set_map_filter_eq: "set (List.map_filter f xs) = {r. \<exists>x \<in> set xs. f x = Some r}"
  by (induction xs) (auto split: option.splits)

lemma set_select_related:
  "set (select_related st ps) = {r. \<exists>p \<in> set ps. join_row st p = Some r}"
  by (auto simp: select_related_def set_map_filter_eq)

lemma sorted_wrt_map_filter:
  assumes "sorted_wrt R xs"
    and "\<And>x y r s. R x y \<Longrightarrow> f x = Some r \<Longrightarrow> f y = Some s \<Longrightarrow> Q r s"
  shows "sorted_wrt Q (List.map_filter f xs)"
  using assms(1)
proof (induction xs)
  case Nil
  then show ?case by simp
next
  case (Cons x xs)
  then show ?case
    by (auto simp: set_map_filter_eq split: option.splits intro: assms(2))
qed

lemma sorted_get_queryset:
  "sorted_wrt (\<lambda>a b. pub_date (row b) \<le> pub_date (row a)) (get_queryset st now)"
proof -
  have "sorted_wrt (\<lambda>a b. pub_date b \<le> pub_date a) (Post_objects_all st)"
    unfolding Post_objects_all_def Post_Meta_ordering_def by (rule sorted_order_by_Desc)
  then have "sorted_wrt (\<lambda>a b. pub_date (row b) \<le> pub_date (row a))
               (select_related st (Post_objects_all st))"
    unfolding select_related_def
    by (rule sorted_wrt_map_filter) (simp add: join_row_row)
  then show ?thesis
    unfolding get_queryset_def by (rule sorted_wrt_filter)
qed

lemma distinct_map_filter_key:
  assumes "distinct (map k xs)" and "\<And>x r. f x = Some r \<Longrightarrow> g r = k x"
  shows "distinct (map g (List.map_filter f xs))"
  using assms(1)
proof (induction xs)
  case Nil
  then show ?case by simp
next
  case (Cons x xs)
  then show ?case
    by (force simp: set_map_filter_eq assms(2) split: option.splits)
qed

lemma distinct_pk_get_queryset:
  assumes "wf_store st"
  shows "distinct (map (\<lambda>r. pk (row r)) (get_queryset st now))"
proof -
  have "distinct (map pk (Post_objects_all st))"
    using assms by (simp add: Post_objects_all_def distinct_map_order_by wf_store_def)
  then have "distinct (map (\<lambda>r. pk (row r)) (select_related st (Post_objects_all st)))"
    unfolding select_related_def
    by (rule distinct_map_filter_key) (simp add: join_row_row)
  then show ?thesis
    unfolding get_queryset_def by (rule distinct_map_filter)
qed

lemma in_get_queryset_iff:
  "r \<in> set (get_queryset st now) \<longleftrightarrow>
     (\<exists>p \<in> set (posts st). join_row st p = Some r) \<and>
     is_published (row r) \<and> pub_date (row r) < now \<and>
     (case category r of None \<Rightarrow> False | Some c \<Rightarrow> is_published c)"
  by (auto simp: get_queryset_def set_select_related Post_objects_all_def set_order_by)

lemma join_row_wf:
  assumes "wf_store st" and "p \<in> set (posts st)"
  shows "\<exists>r. join_row st p = Some r \<and> row r = p \<and>
             category r = (case category_id p of None \<Rightarrow> None
                           | Some c \<Rightarrow> List.find (\<lambda>x. pk x = c) (categories st))"
proof -
  from assms have "author_id p \<in> set (map user_pk (users st))"
    by (simp add: wf_store_def)
  then have "List.find (\<lambda>u. user_pk u = author_id p) (users st) \<noteq> None"
    by (auto simp: find_None_iff)
  then show ?thesis
    by (auto simp: join_row_def)
qed

lemma join_row_category:
  "join_row st p = Some r \<Longrightarrow>
     category r = (case category_id p of None \<Rightarrow> None
                   | Some c \<Rightarrow> List.find (\<lambda>x. pk x = c) (categories st))"
  by (auto simp: join_row_def split: option.splits)

lemma published_instance_iff:
  assumes "wf_store st"
  shows "(\<exists>r \<in> set (get_queryset st now). row r = p \<and> category r = Some c) \<longleftrightarrow>
           p \<in> set (posts st) \<and> is_published p \<and> pub_date p < now \<and>
           c \<in> set (categories st) \<and> category_id p = Some (pk c) \<and> is_published c"
    (is "?L \<longleftrightarrow> ?R")
proof
  assume ?L
  then obtain r where r: "r \<in> set (get_queryset st now)" "row r = p" "category r = Some c"
    by auto
  from r(1) obtain q where q: "q \<in> set (posts st)" "join_row st q = Some r"
    and vis: "is_published (row r)" "pub_date (row r) < now"
    and cat: "case category r of None \<Rightarrow> False | Some c \<Rightarrow> is_published c"
    by (auto simp: in_get_queryset_iff)
  from q(2) r(2) have qp: "q = p" by (simp add: join_row_row)
  from r(3) join_row_category [OF q(2)] obtain k where
    k: "category_id q = Some k" "List.find (\<lambda>x. pk x = k) (categories st) = Some c"
    by (auto split: option.splits)
  from find_SomeD [OF k(2)] have "c \<in> set (categories st)" "pk c = k" by auto
  with q(1) qp vis r cat k(1) show ?R by auto
next
  assume R: ?R
  from R assms obtain r where r: "join_row st p = Some r" "row r = p"
    "category r = (case category_id p of None \<Rightarrow> None
                   | Some c \<Rightarrow> List.find (\<lambda>x. pk x = c) (categories st))"
    using join_row_wf by blast
  from assms have "distinct (map pk (categories st))" by (simp add: wf_store_def)
  from find_distinct_key [OF this, of c] r(3) R have rc: "category r = Some c" by simp
  have "r \<in> set (get_queryset st now)"
    unfolding in_get_queryset_iff
  proof (intro conjI)
    show "\<exists>p \<in> set (posts st). join_row st p = Some r" using R r(1) by blast
    show "is_published (row r)" "pub_date (row r) < now" using R r(2) by simp_all
    show "case category r of None \<Rightarrow> False | Some c \<Rightarrow> is_published c"
      using rc R by simp
  qed
  with r(2) rc show ?L by blast
qed

lemma get_queryset_has_category:
  "r \<in> set (get_queryset st now) \<Longrightarrow> \<exists>c. category r = Some c \<and> is_published c"
  by (auto simp: get_queryset_def split: option.splits)

lemma published_row_iff:
  assumes "wf_store st"
  shows "p \<in> row ` set (get_queryset st now) \<longleftrightarrow>
           p \<in> set (posts st) \<and> is_published p \<and> pub_date p < now \<and>
           (\<exists>c \<in> set (categories st). category_id p = Some (pk c) \<and> is_published c)"
    (is "?L \<longleftrightarrow> ?R")
proof
  assume ?L
  then obtain r where r: "r \<in> set (get_queryset st now)" "row r = p" by auto
  from get_queryset_has_category [OF r(1)] obtain c where "category r = Some c" by blast
  with r have "\<exists>r \<in> set (get_queryset st now). row r = p \<and> category r = Some c" by blast
  then show ?R unfolding published_instance_iff [OF assms] by blast
next
  assume ?R
  then obtain c where "p \<in> set (posts st) \<and> is_published p \<and> pub_date p < now \<and>
           c \<in> set (categories st) \<and> category_id p = Some (pk c) \<and> is_published c" by blast
  then have "\<exists>r \<in> set (get_queryset st now). row r = p \<and> category r = Some c"
    unfolding published_instance_iff [OF assms] .
  then show ?L by force
qed

lemma filter_unique_key:
  "distinct (map k xs) \<Longrightarrow>
     filter (\<lambda>x. k x = v \<and> P x) xs =
       (case List.find (\<lambda>x. k x = v \<and> P x) xs of None \<Rightarrow> [] | Some x \<Rightarrow> [x])"
proof (induction xs)
  case Nil
  then show ?case by simp
next
  case (Cons x xs)
  show ?case
  proof (cases "k x = v \<and> P x")
    case True
    from Cons.prems have "k x \<notin> k ` set xs" by simp
    with True have "\<forall>y \<in> set xs. k y \<noteq> v" by blast
    then have "filter (\<lambda>y. k y = v \<and> P y) xs = []"
      by (simp add: filter_empty_conv)
    with True show ?thesis by simp
  next
    case False
    with Cons show ?thesis by auto
  qed
qed

lemma get_object_or_404_unique_key:
  assumes "distinct (map k xs)"
  shows "get_object_or_404 xs (\<lambda>x. k x = v \<and> P x) =
           (case List.find (\<lambda>x. k x = v \<and> P x) xs of None \<Rightarrow> Inl Http404 | Some x \<Rightarrow> Inr x)"
  unfolding get_object_or_404_def filter_unique_key [OF assms]
  by (simp split: option.splits)

lemma get_object_or_404_Inr:
  "get_object_or_404 xs P = Inr x \<Longrightarrow> x \<in> set xs \<and> P x"
proof -
  assume a: "get_object_or_404 xs P = Inr x"
  then have "filter P xs = [x]"
    by (auto simp: get_object_or_404_def split: list.splits)
  then have "x \<in> set (filter P xs)" by simp
  then show ?thesis by simp
qed

lemma get_object_or_404_Http404:
  "get_object_or_404 xs P = Inl Http404 \<longleftrightarrow> (\<forall>x \<in> set xs. \<not> P x)"
proof -
  have "get_object_or_404 xs P = Inl Http404 \<longleftrightarrow> filter P xs = []"
    by (simp add: get_object_or_404_def split: list.splits)
  then show ?thesis by (simp add: filter_empty_conv)
qed

lemma wf_demo_store: "wf_store demo_store"
  by (simp add: wf_store_def demo_defs)

lemma get_queryset_demo_100:
  "map row (get_queryset demo_store 100) = [post_a, post_t]"
  by (simp add: query_defs demo_defs)

lemma get_queryset_demo_200:
  "map row (get_queryset demo_store 200) = [post_b, post_a, post_t]"
  by (simp add: query_defs demo_defs)

lemma get_queryset_demo_85:
  "get_queryset demo_store 85 = []"
  by (simp add: query_defs demo_defs)

lemma find_distinct_key_cond:
  "distinct (map k xs) \<Longrightarrow> x \<in> set xs \<Longrightarrow> P x \<Longrightarrow>
     List.find (\<lambda>y. k y = k x \<and> P y) xs = Some x"
  by (induction xs) (auto simp: rev_image_eqI)

lemma distinct_key_eq:
  "distinct (map k xs) \<Longrightarrow> x \<in> set xs \<Longrightarrow> y \<in> set xs \<Longrightarrow> k x = k y \<Longrightarrow> x = y"
  by (meson distinct_map inj_onD)

lemma get_object_or_404_by_key:
  assumes "distinct (map k xs)" and "x \<in> set xs" and "P x"
  shows "get_object_or_404 xs (\<lambda>y. k y = k x \<and> P y) = Inr x"
  using assms
  by (simp add: get_object_or_404_unique_key [OF assms(1)] find_distinct_key_cond)

lemma get_published_post_by_pk:
  assumes "wf_store st" and "r \<in> set (get_queryset st now)"
  shows "get_object_or_404 (get_queryset st now) (\<lambda>x. pk (row x) = pk (row r)) = Inr r"
  using get_object_or_404_by_key [OF distinct_pk_get_queryset [OF assms(1)] assms(2),
      of "\<lambda>_. True"]
  by simp

lemma post_detail_found:
  assumes "wf_store st" and "r \<in> set (get_queryset st now)" and "pk (row r) = post_id"
    and "db_integer post_id"
  shows "fst (post_detail st now post_id) =
           Inr (render ''blog/detail.html'' [''post'' \<mapsto> PostObj r])"
  using get_published_post_by_pk [OF assms(1,2)] assms(3,4)
  by (simp add: post_detail_def db_read_def)

lemma post_detail_missing:
  assumes "\<forall>r \<in> set (get_queryset st now). pk (row r) \<noteq> post_id"
    and "db_integer post_id"
  shows "fst (post_detail st now post_id) = Inl Http404"
proof -
  from assms(1) have "get_object_or_404 (get_queryset st now) (\<lambda>r. pk (row r) = post_id)
      = Inl Http404"
    by (simp add: get_object_or_404_Http404)
  with assms(2) show ?thesis by (simp add: post_detail_def db_read_def)
qed

lemma post_detail_overflow:
  "\<not> db_integer post_id \<Longrightarrow> fst (post_detail st now post_id) = Inl OverflowError"
  by (simp add: post_detail_def)

lemma hidden_post_not_published:
  assumes wf: "wf_store st" and p: "p \<in> set (posts st)"
    and hid: "\<not> is_published p \<or> now \<le> pub_date p \<or> category_id p = None \<or>
              (\<exists>c \<in> set (categories st). category_id p = Some (pk c) \<and> \<not> is_published c)"
    and r: "r \<in> set (get_queryset st now)"
  shows "pk (row r) \<noteq> pk p"
proof
  assume eq: "pk (row r) = pk p"
  from r have "row r \<in> row ` set (get_queryset st now)" by simp
  then have vis: "row r \<in> set (posts st)" "is_published (row r)" "pub_date (row r) < now"
    "\<exists>c \<in> set (categories st). category_id (row r) = Some (pk c) \<and> is_published c"
    unfolding published_row_iff [OF wf] by simp_all
  from wf have "distinct (map pk (posts st))" by (simp add: wf_store_def)
  from distinct_key_eq [OF this vis(1) p eq] have rp: "row r = p" .
  from vis(4) rp obtain c where c: "c \<in> set (categories st)" "category_id p = Some (pk c)"
    "is_published c" by auto
  from hid vis(2,3) rp c(2) obtain d where d: "d \<in> set (categories st)"
    "category_id p = Some (pk d)" "\<not> is_published d" by auto
  from wf have "distinct (map pk (categories st))" by (simp add: wf_store_def)
  from distinct_key_eq [OF this c(1) d(1)] c(2) d(2) have "c = d" by simp
  with c(3) d(3) show False by simp
qed

lemma category_posts_found:
  assumes "wf_store st" and "c \<in> set (categories st)" and "is_published c"
  shows "fst (category_posts st now (slug c)) =
           Inr (render ''blog/category.html''
                  [''category'' \<mapsto> CategoryObj c,
                   ''post_list'' \<mapsto> PostList
                      (filter (\<lambda>r. case category r of None \<Rightarrow> False
                                    | Some k \<Rightarrow> slug k = slug c)
                         (get_queryset st now))])"
proof -
  from assms(1) have "distinct (map slug (Category_objects_all st))"
    by (simp add: Category_objects_all_def distinct_map_order_by wf_store_def)
  moreover from assms(2) have "c \<in> set (Category_objects_all st)"
    by (simp add: Category_objects_all_def set_order_by)
  ultimately have "get_object_or_404 (Category_objects_all st)
      (\<lambda>y. slug y = slug c \<and> is_published y) = Inr c"
    using assms(3) by (rule get_object_or_404_by_key)
  then show ?thesis
    by (simp add: category_posts_def db_read_def)
qed

lemma rows_of_category:
  assumes "wf_store st"
  shows "row ` set (filter (\<lambda>r. case category r of None \<Rightarrow> False | Some k \<Rightarrow> slug k = s)
                      (get_queryset st now)) =
         {p \<in> set (posts st). is_published p \<and> pub_date p < now \<and>
            (\<exists>k \<in> set (categories st).
               category_id p = Some (pk k) \<and> is_published k \<and> slug k = s)}"
    (is "?A = ?B")
proof (intro set_eqI iffI)
  fix p assume "p \<in> ?A"
  then obtain r k where r: "r \<in> set (get_queryset st now)" "row r = p"
    "category r = Some k" "slug k = s"
    by (auto split: option.splits)
  then have "\<exists>r \<in> set (get_queryset st now). row r = p \<and> category r = Some k" by blast
  then have "p \<in> set (posts st) \<and> is_published p \<and> pub_date p < now \<and>
     k \<in> set (categories st) \<and> category_id p = Some (pk k) \<and> is_published k"
    unfolding published_instance_iff [OF assms] .
  with r(4) show "p \<in> ?B" by blast
next
  fix p assume "p \<in> ?B"
  then obtain k where k: "p \<in> set (posts st) \<and> is_published p \<and> pub_date p < now \<and>
     k \<in> set (categories st) \<and> category_id p = Some (pk k) \<and> is_published k"
    and s: "slug k = s" by blast
  from k have "\<exists>r \<in> set (get_queryset st now). row r = p \<and> category r = Some k"
    unfolding published_instance_iff [OF assms] .
  then obtain r where "r \<in> set (get_queryset st now)" "row r = p" "category r = Some k"
    by blast
  with s show "p \<in> ?A" by force
qed






lemma post_list_of_index: "post_list_of (index st now n) = take n (get_queryset st now)"
  by (simp add: post_list_of_def index_def db_read_def render_def)

lemma post_list_of_category_posts:
  assumes "wf_store st" and "c \<in> set (categories st)" and "is_published c"
  shows "post_list_of (category_posts st now (slug c)) =
           filter (\<lambda>r. case category r of None \<Rightarrow> False | Some k \<Rightarrow> slug k = slug c)
             (get_queryset st now)"
  by (simp add: post_list_of_def category_posts_found [OF assms] render_def)

lemma in_take_sorted_desc:
  assumes s: "sorted_wrt (\<lambda>a b. (f b :: int) \<le> f a) xs" and x: "x \<in> set xs"
    and n: "length (filter (\<lambda>y. f x \<le> f y) xs) \<le> n"
  shows "x \<in> set (take n xs)"
proof -
  from x obtain i where i: "i < length xs" "xs ! i = x" by (auto simp: in_set_conv_nth)
  have all: "\<forall>y \<in> set (take (Suc i) xs). f x \<le> f y"
  proof
    fix y assume "y \<in> set (take (Suc i) xs)"
    then obtain j where j: "j < Suc i" "j < length xs" "xs ! j = y"
      by (auto simp: in_set_conv_nth)
    show "f x \<le> f y"
    proof (cases "j = i")
      case True
      with i j show ?thesis by simp
    next
      case False
      with j have "j < i" by simp
      from sorted_wrt_nth_less [OF s this i(1)] i(2) j(3) show ?thesis by simp
    qed
  qed
  have "length (filter (\<lambda>y. f x \<le> f y) xs) =
        length (filter (\<lambda>y. f x \<le> f y) (take (Suc i) xs)) +
        length (filter (\<lambda>y. f x \<le> f y) (drop (Suc i) xs))"
    by (metis append_take_drop_id filter_append length_append)
  moreover from all have "filter (\<lambda>y. f x \<le> f y) (take (Suc i) xs) = take (Suc i) xs"
    by simp
  moreover from i(1) have "length (take (Suc i) xs) = Suc i" by simp
  ultimately have "Suc i \<le> length (filter (\<lambda>y. f x \<le> f y) xs)" by simp
  with n have "i < n" by simp
  with i have "(take n xs) ! i = x" "i < length (take n xs)" by simp_all
  then show ?thesis by (metis nth_mem)
qed

section \<open>Claims\<close>

text \<open>
  C10. A newly created Category, Location or Post on which the publication flag is
  not set has \<open>is_published\<close> true.
\<close>

theorem is_published_defaults_to_True:
  "is_published (Category_create key now None t d s) \<and>
   is_published (Location_create key now None n) \<and>
   is_published (Post_create key now None t body pd a l c)"
  by (simp add: Category_create_def Location_create_def Post_create_def
      field_or_default_def is_published_default_def)

text \<open>
  C7. Category and Location listings are ordered by \<open>created_at\<close> ascending; Post
  listings are ordered by \<open>pub_date\<close> descending, which replaces the inherited
  \<open>created_at\<close> order (the example store's posts are not listed by \<open>created_at\<close>).
  Each listing holds exactly the rows of its table.
\<close>

theorem default_ordering:
  "sorted (map created_at (Category_objects_all st)) \<and>
   mset (Category_objects_all st) = mset (categories st) \<and>
   sorted (map created_at (Location_objects_all st)) \<and>
   mset (Location_objects_all st) = mset (locations st) \<and>
   sorted_wrt (\<lambda>a b. pub_date b \<le> pub_date a) (Post_objects_all st) \<and>
   mset (Post_objects_all st) = mset (posts st) \<and>
   \<not> sorted (map created_at (Post_objects_all demo_store))"
proof (intro conjI)
  show "sorted (map created_at (Category_objects_all st))"
    unfolding Category_objects_all_def Category_Meta_ordering_def BaseBlogMeta_Meta_ordering_def
    by (rule sorted_order_by_Asc)
  show "sorted (map created_at (Location_objects_all st))"
    unfolding Location_objects_all_def Location_Meta_ordering_def BaseBlogMeta_Meta_ordering_def
    by (rule sorted_order_by_Asc)
  show "sorted_wrt (\<lambda>a b. pub_date b \<le> pub_date a) (Post_objects_all st)"
    unfolding Post_objects_all_def Post_Meta_ordering_def
    by (rule sorted_order_by_Desc)
  show "mset (Category_objects_all st) = mset (categories st)"
    by (simp add: Category_objects_all_def mset_order_by)
  show "mset (Location_objects_all st) = mset (locations st)"
    by (simp add: Location_objects_all_def mset_order_by)
  show "mset (Post_objects_all st) = mset (posts st)"
    by (simp add: Post_objects_all_def mset_order_by)
  show "\<not> sorted (map created_at (Post_objects_all demo_store))"
    by (simp add: Post_objects_all_def Post_Meta_ordering_def demo_defs)
qed

text \<open>
  C9. Each of the three views hands the store back as it received it, whether it
  renders a page or fails.
\<close>

theorem views_leave_store_unchanged:
  "snd (index st now n) = st \<and>
   snd (post_detail st now post_id) = st \<and>
   snd (category_posts st now category_slug) = st"
  by (simp add: index_def post_detail_def category_posts_def db_read_def
      split: sum.splits prod.splits)

text \<open>
  C1. As stated the claim fails: a published post with a past \<open>pub_date\<close> and no
  category is not in the published queryset.
\<close>

theorem null_category_post_not_listed:
  "post_n \<in> set (posts demo_store) \<and> is_published post_n \<and> pub_date post_n < 100 \<and>
   category_id post_n = None \<and> post_n \<notin> row ` set (get_queryset demo_store 100)"
  by (simp add: query_defs demo_defs)

text \<open>
  C1, amended. In a store with referential integrity, a post is in the published
  queryset evaluated at \<open>now\<close> if and only if it is a row of the table, is published,
  has \<open>pub_date\<close> strictly before \<open>now\<close>, and refers to a category that is published;
  a post with no category is never in it.
\<close>

theorem published_iff_visible_with_category:
  assumes "wf_store st"
  shows "(p \<in> row ` set (get_queryset st now) \<longleftrightarrow>
            p \<in> set (posts st) \<and> is_published p \<and> pub_date p < now \<and>
            (\<exists>c \<in> set (categories st). category_id p = Some (pk c) \<and> is_published c)) \<and>
         (category_id p = None \<longrightarrow> p \<notin> row ` set (get_queryset st now))"
  using published_row_iff [OF assms, of p now] by auto

theorem published_iff_visible_with_category_witness:
  "wf_store demo_store \<and> post_a \<in> row ` set (get_queryset demo_store 100) \<and>
   post_b \<notin> row ` set (get_queryset demo_store 100) \<and>
   post_e \<notin> row ` set (get_queryset demo_store 100)"
proof -
  have wf: "wf_store demo_store" by (rule wf_demo_store)
  have a: "post_a \<in> row ` set (get_queryset demo_store 100)"
    using published_iff_visible_with_category [OF wf, of post_a 100]
    by (simp add: demo_defs)
  have b: "post_b \<notin> row ` set (get_queryset demo_store 100)"
    using published_iff_visible_with_category [OF wf, of post_b 100]
    by (simp add: demo_defs)
  have e: "post_e \<notin> row ` set (get_queryset demo_store 100)"
    using published_iff_visible_with_category [OF wf, of post_e 100]
    by (simp add: demo_defs)
  from wf a b e show ?thesis by simp
qed

text \<open>
  C3. As stated the claim fails. A published post with a past \<open>pub_date\<close> and no
  category, which the specification counts as visible, gets \<open>Http404\<close>; and an id
  beyond the range of database integers gets \<open>OverflowError\<close>, neither the post nor
  \<open>Http404\<close>.
\<close>

theorem post_detail_null_category_or_overflow:
  "post_n \<in> set (posts demo_store) \<and> pk post_n = 4 \<and> is_published post_n \<and>
   pub_date post_n < 100 \<and> category_id post_n = None \<and>
   fst (post_detail demo_store 100 4) = Inl Http404 \<and>
   fst (post_detail demo_store 100 (2 ^ 63)) = Inl OverflowError"
proof -
  have rows: "map row (get_queryset demo_store 100) = [post_a, post_t]"
    by (rule get_queryset_demo_100)
  have "\<forall>r \<in> set (get_queryset demo_store 100). pk (row r) \<noteq> 4"
  proof
    fix x assume "x \<in> set (get_queryset demo_store 100)"
    then have "row x \<in> set (map row (get_queryset demo_store 100))" by simp
    then show "pk (row x) \<noteq> 4" unfolding rows by (auto simp: demo_defs)
  qed
  moreover have "db_integer 4" by (simp add: db_integer_def)
  ultimately have a: "fst (post_detail demo_store 100 4) = Inl Http404"
    by (rule post_detail_missing)
  have "\<not> db_integer (2 ^ 63)" by (simp add: db_integer_def)
  then have b: "fst (post_detail demo_store 100 (2 ^ 63)) = Inl OverflowError"
    by (rule post_detail_overflow)
  have "post_n \<in> set (posts demo_store)" "pk post_n = 4" "is_published post_n"
    "pub_date post_n < 100" "category_id post_n = None"
    by (simp_all add: demo_defs)
  with a b show ?thesis by simp
qed

text \<open>
  C3, amended. In a store with referential integrity and for an id that is a
  database integer, \<open>post_detail\<close> renders the post with that id if that post is
  published, has a \<open>pub_date\<close> strictly before \<open>now\<close> and refers to a published
  category, and fails with \<open>Http404\<close> if the store has no such post with that id.
  In particular it fails with the same \<open>Http404\<close> when a post with the id exists but
  is unpublished, has a \<open>pub_date\<close> not yet reached, has no category, or has an
  unpublished category.
\<close>

theorem post_detail_published_or_404:
  assumes wf: "wf_store st" and rng: "db_integer post_id"
  shows "(\<forall>p \<in> set (posts st).
            pk p = post_id \<and> is_published p \<and> pub_date p < now \<and>
            (\<exists>c \<in> set (categories st). category_id p = Some (pk c) \<and> is_published c) \<longrightarrow>
            (\<exists>r \<in> set (get_queryset st now). row r = p \<and>
               fst (post_detail st now post_id) =
                 Inr (render ''blog/detail.html'' [''post'' \<mapsto> PostObj r]))) \<and>
         (\<not> (\<exists>p \<in> set (posts st).
               pk p = post_id \<and> is_published p \<and> pub_date p < now \<and>
               (\<exists>c \<in> set (categories st). category_id p = Some (pk c) \<and> is_published c)) \<longrightarrow>
            fst (post_detail st now post_id) = Inl Http404) \<and>
         (\<forall>p \<in> set (posts st). pk p = post_id \<and>
            (\<not> is_published p \<or> now \<le> pub_date p \<or> category_id p = None \<or>
             (\<exists>c \<in> set (categories st). category_id p = Some (pk c) \<and> \<not> is_published c)) \<longrightarrow>
            fst (post_detail st now post_id) = Inl Http404)"
proof (intro conjI ballI impI)
  fix p
  assume p: "p \<in> set (posts st)"
    and h: "pk p = post_id \<and> is_published p \<and> pub_date p < now \<and>
      (\<exists>c \<in> set (categories st). category_id p = Some (pk c) \<and> is_published c)"
  with p have "p \<in> row ` set (get_queryset st now)"
    unfolding published_row_iff [OF wf] by simp
  then obtain r where r: "r \<in> set (get_queryset st now)" "row r = p" by auto
  with h have "pk (row r) = post_id" by simp
  from post_detail_found [OF wf r(1) this rng] r
  show "\<exists>r \<in> set (get_queryset st now). row r = p \<and>
          fst (post_detail st now post_id) =
            Inr (render ''blog/detail.html'' [''post'' \<mapsto> PostObj r])"
    by blast
next
  assume none: "\<not> (\<exists>p \<in> set (posts st).
      pk p = post_id \<and> is_published p \<and> pub_date p < now \<and>
      (\<exists>c \<in> set (categories st). category_id p = Some (pk c) \<and> is_published c))"
  have "\<forall>r \<in> set (get_queryset st now). pk (row r) \<noteq> post_id"
  proof
    fix r assume "r \<in> set (get_queryset st now)"
    then have "row r \<in> row ` set (get_queryset st now)" by simp
    then have "row r \<in> set (posts st) \<and> is_published (row r) \<and> pub_date (row r) < now \<and>
      (\<exists>c \<in> set (categories st). category_id (row r) = Some (pk c) \<and> is_published c)"
      unfolding published_row_iff [OF wf] .
    with none show "pk (row r) \<noteq> post_id" by blast
  qed
  then show "fst (post_detail st now post_id) = Inl Http404"
    using rng by (rule post_detail_missing)
next
  fix p
  assume p: "p \<in> set (posts st)"
    and h: "pk p = post_id \<and>
      (\<not> is_published p \<or> now \<le> pub_date p \<or> category_id p = None \<or>
       (\<exists>c \<in> set (categories st). category_id p = Some (pk c) \<and> \<not> is_published c))"
  from h have hid: "\<not> is_published p \<or> now \<le> pub_date p \<or> category_id p = None \<or>
      (\<exists>c \<in> set (categories st). category_id p = Some (pk c) \<and> \<not> is_published c)"
    and i: "pk p = post_id" by simp_all
  have "\<forall>r \<in> set (get_queryset st now). pk (row r) \<noteq> post_id"
  proof
    fix r assume "r \<in> set (get_queryset st now)"
    from hidden_post_not_published [OF wf p hid this] i
    show "pk (row r) \<noteq> post_id" by simp
  qed
  then show "fst (post_detail st now post_id) = Inl Http404"
    using rng by (rule post_detail_missing)
qed

theorem post_detail_published_or_404_witness:
  "wf_store demo_store \<and> db_integer 1 \<and>
   (\<exists>r. row r = post_a \<and> fst (post_detail demo_store 100 1) =
      Inr (render ''blog/detail.html'' [''post'' \<mapsto> PostObj r])) \<and>
   fst (post_detail demo_store 100 2) = Inl Http404 \<and>
   fst (post_detail demo_store 100 3) = Inl Http404 \<and>
   fst (post_detail demo_store 100 4) = Inl Http404 \<and>
   fst (post_detail demo_store 100 99) = Inl Http404"
proof -
  have wf: "wf_store demo_store" by (rule wf_demo_store)
  have i: "db_integer 1" "db_integer 2" "db_integer 3" "db_integer 4" "db_integer 99"
    by (simp_all add: db_integer_def)
  have "post_a \<in> set (posts demo_store)" "pk post_a = 1" "is_published post_a"
    "pub_date post_a < 100" "cat_news \<in> set (categories demo_store)"
    "category_id post_a = Some (pk cat_news)" "is_published cat_news"
    by (simp_all add: demo_defs)
  with post_detail_published_or_404 [OF wf i(1), of 100]
  have a: "\<exists>r. row r = post_a \<and> fst (post_detail demo_store 100 1) =
      Inr (render ''blog/detail.html'' [''post'' \<mapsto> PostObj r])" by blast
  have "post_b \<in> set (posts demo_store)" "pk post_b = 2" "100 \<le> pub_date post_b"
    by (simp_all add: demo_defs)
  with post_detail_published_or_404 [OF wf i(2), of 100]
  have b: "fst (post_detail demo_store 100 2) = Inl Http404" by blast
  have "post_e \<in> set (posts demo_store)" "pk post_e = 3"
    "cat_hidden \<in> set (categories demo_store)" "category_id post_e = Some (pk cat_hidden)"
    "\<not> is_published cat_hidden"
    by (simp_all add: demo_defs)
  with post_detail_published_or_404 [OF wf i(3), of 100]
  have e: "fst (post_detail demo_store 100 3) = Inl Http404" by blast
  have "post_n \<in> set (posts demo_store)" "pk post_n = 4" "category_id post_n = None"
    by (simp_all add: demo_defs)
  with post_detail_published_or_404 [OF wf i(4), of 100]
  have n: "fst (post_detail demo_store 100 4) = Inl Http404" by blast
  have "\<not> (\<exists>p \<in> set (posts demo_store). pk p = 99 \<and> is_published p \<and> pub_date p < 100 \<and>
      (\<exists>c \<in> set (categories demo_store). category_id p = Some (pk c) \<and> is_published c))"
    by (simp add: demo_defs)
  with post_detail_published_or_404 [OF wf i(5), of 100]
  have m: "fst (post_detail demo_store 100 99) = Inl Http404" by blast
  from wf i(1) a b e n m show ?thesis by blast
qed

text \<open>
  C4. \<open>category_posts\<close> fails with \<open>Http404\<close> exactly when the store has no published
  category with the given slug, whatever its posts are.
\<close>

theorem category_posts_404_iff:
  "fst (category_posts st now category_slug) = Inl Http404 \<longleftrightarrow>
     \<not> (\<exists>c \<in> set (categories st). slug c = category_slug \<and> is_published c)"
proof -
  let ?g = "get_object_or_404 (Category_objects_all st)
              (\<lambda>c. slug c = category_slug \<and> is_published c)"
  have "fst (category_posts st now category_slug) = Inl Http404 \<longleftrightarrow> ?g = Inl Http404"
    by (cases ?g) (simp_all add: category_posts_def db_read_def)
  then show ?thesis
    by (simp add: get_object_or_404_Http404 Category_objects_all_def set_order_by)
qed

theorem category_posts_404_iff_witness:
  "fst (category_posts demo_store 100 ''drafts'') = Inl Http404 \<and>
   post_e \<in> set (posts demo_store) \<and> category_id post_e = Some (pk cat_hidden) \<and>
   slug cat_hidden = ''drafts'' \<and>
   fst (category_posts demo_store 100 ''news'') \<noteq> Inl Http404"
proof -
  have d: "fst (category_posts demo_store 100 ''drafts'') = Inl Http404"
    unfolding category_posts_404_iff [of demo_store 100 "''drafts''"]
    by (simp add: demo_defs)
  have n: "fst (category_posts demo_store 100 ''news'') \<noteq> Inl Http404"
    unfolding category_posts_404_iff [of demo_store 100 "''news''"]
    by (simp add: demo_defs)
  from d n show ?thesis by (simp add: demo_defs)
qed

text \<open>
  C5. In a store with referential integrity, for the slug of a published category
  \<open>category_posts\<close> renders that category together with the published queryset
  restricted to posts whose category has the slug: its posts are exactly the posts of
  the store that are published, have a past \<open>pub_date\<close> and refer to a published
  category with that slug.
\<close>

theorem category_posts_lists_visible_posts_of_category:
  assumes "wf_store st" and "c \<in> set (categories st)" and "is_published c"
  shows "\<exists>ps. fst (category_posts st now (slug c)) =
                 Inr (render ''blog/category.html''
                        [''category'' \<mapsto> CategoryObj c, ''post_list'' \<mapsto> PostList ps]) \<and>
              ps = filter (\<lambda>r. case category r of None \<Rightarrow> False
                               | Some k \<Rightarrow> slug k = slug c) (get_queryset st now) \<and>
              row ` set ps =
                {p \<in> set (posts st). is_published p \<and> pub_date p < now \<and>
                   (\<exists>k \<in> set (categories st).
                      category_id p = Some (pk k) \<and> is_published k \<and> slug k = slug c)}"
  using category_posts_found [OF assms] rows_of_category [OF assms(1)] by blast

theorem category_posts_lists_visible_posts_of_category_witness:
  "wf_store demo_store \<and> cat_news \<in> set (categories demo_store) \<and> is_published cat_news \<and>
   map row (post_list_of (category_posts demo_store 100 ''news'')) = [post_a, post_t]"
proof -
  have wf: "wf_store demo_store" by (rule wf_demo_store)
  have c: "cat_news \<in> set (categories demo_store)" "is_published cat_news"
    by (simp_all add: demo_defs)
  have s: "slug cat_news = ''news''" by (simp add: demo_defs)
  from category_posts_lists_visible_posts_of_category [OF wf c, of 100]
  obtain ps where ps: "fst (category_posts demo_store 100 (slug cat_news)) =
      Inr (render ''blog/category.html''
             [''category'' \<mapsto> CategoryObj cat_news, ''post_list'' \<mapsto> PostList ps])"
    "ps = filter (\<lambda>r. case category r of None \<Rightarrow> False | Some k \<Rightarrow> slug k = slug cat_news)
            (get_queryset demo_store 100)"
    by blast
  from ps(1) have "post_list_of (category_posts demo_store 100 ''news'') = ps"
    by (simp add: s post_list_of_def render_def)
  moreover from ps(2) have "map row ps = [post_a, post_t]"
    by (simp add: query_defs demo_defs)
  ultimately show ?thesis using wf c by simp
qed

text \<open>
  C8. \<open>index\<close> passes the context \<open>{'post_list': posts}\<close>, \<open>post_detail\<close> passes
  \<open>{'post': post}\<close> and \<open>category_posts\<close> passes
  \<open>{'category': category, 'post_list': posts}\<close>; the contexts have no other key.
\<close>

theorem view_contexts:
  "(\<exists>resp. fst (index st now n) = Inr resp \<and>
      context_dict resp = [''post_list'' \<mapsto> PostList (take n (get_queryset st now))] \<and>
      dom (context_dict resp) = {''post_list''}) \<and>
   (fst (post_detail st now post_id) = Inr resp1 \<longrightarrow>
      (\<exists>post. post \<in> set (get_queryset st now) \<and> pk (row post) = post_id \<and>
         context_dict resp1 = [''post'' \<mapsto> PostObj post] \<and>
         dom (context_dict resp1) = {''post''})) \<and>
   (fst (category_posts st now category_slug) = Inr resp2 \<longrightarrow>
      (\<exists>cat. cat \<in> set (categories st) \<and> slug cat = category_slug \<and> is_published cat \<and>
         context_dict resp2 =
           [''category'' \<mapsto> CategoryObj cat,
            ''post_list'' \<mapsto> PostList
               (filter (\<lambda>r. case category r of None \<Rightarrow> False
                             | Some c \<Rightarrow> slug c = category_slug)
                  (get_queryset st now))] \<and>
         dom (context_dict resp2) = {''category'', ''post_list''}))"
proof (intro conjI impI)
  show "\<exists>resp. fst (index st now n) = Inr resp \<and>
      context_dict resp = [''post_list'' \<mapsto> PostList (take n (get_queryset st now))] \<and>
      dom (context_dict resp) = {''post_list''}"
    by (simp add: index_def db_read_def render_def)
next
  assume a: "fst (post_detail st now post_id) = Inr resp1"
  let ?g = "get_object_or_404 (get_queryset st now) (\<lambda>r. pk (row r) = post_id)"
  from a obtain post where g: "?g = Inr post"
    and r: "resp1 = render ''blog/detail.html'' [''post'' \<mapsto> PostObj post]"
    by (cases ?g) (auto simp: post_detail_def db_read_def split: if_splits)
  from get_object_or_404_Inr [OF g] r
  show "\<exists>post. post \<in> set (get_queryset st now) \<and> pk (row post) = post_id \<and>
         context_dict resp1 = [''post'' \<mapsto> PostObj post] \<and>
         dom (context_dict resp1) = {''post''}"
    by (auto simp: render_def)
next
  assume a: "fst (category_posts st now category_slug) = Inr resp2"
  let ?g = "get_object_or_404 (Category_objects_all st)
              (\<lambda>c. slug c = category_slug \<and> is_published c)"
  let ?ps = "filter (\<lambda>r. case category r of None \<Rightarrow> False | Some c \<Rightarrow> slug c = category_slug)
               (get_queryset st now)"
  from a obtain cat where g: "?g = Inr cat"
    and r: "resp2 = render ''blog/category.html''
                      [''category'' \<mapsto> CategoryObj cat, ''post_list'' \<mapsto> PostList ?ps]"
    by (cases ?g) (auto simp: category_posts_def db_read_def)
  from get_object_or_404_Inr [OF g]
  have "cat \<in> set (categories st)" "slug cat = category_slug" "is_published cat"
    by (simp_all add: Category_objects_all_def set_order_by)
  moreover from r have "context_dict resp2 =
      [''category'' \<mapsto> CategoryObj cat, ''post_list'' \<mapsto> PostList ?ps]"
    by (simp add: render_def)
  moreover from r have "dom (context_dict resp2) = {''category'', ''post_list''}"
    by (auto simp: render_def)
  ultimately show "\<exists>cat. cat \<in> set (categories st) \<and> slug cat = category_slug \<and>
         is_published cat \<and>
         context_dict resp2 =
           [''category'' \<mapsto> CategoryObj cat, ''post_list'' \<mapsto> PostList ?ps] \<and>
         dom (context_dict resp2) = {''category'', ''post_list''}"
    by blast
qed

theorem view_contexts_witness:
  "(\<exists>resp. fst (post_detail demo_store 100 1) = Inr resp \<and>
      dom (context_dict resp) = {''post''}) \<and>
   (\<exists>resp. fst (category_posts demo_store 100 ''news'') = Inr resp \<and>
      dom (context_dict resp) = {''category'', ''post_list''})"
proof -
  have wf: "wf_store demo_store" by (rule wf_demo_store)
  have "map row (get_queryset demo_store 100) = [post_a, post_t]"
    by (rule get_queryset_demo_100)
  then obtain r where r: "r \<in> set (get_queryset demo_store 100)" "row r = post_a"
    by (metis list.set_intros(1) imageE list.set_map)
  have "pk (row r) = 1" using r(2) by (simp add: demo_defs)
  moreover have "db_integer 1" by (simp add: db_integer_def)
  ultimately have "fst (post_detail demo_store 100 1) =
      Inr (render ''blog/detail.html'' [''post'' \<mapsto> PostObj r])"
    by (rule post_detail_found [OF wf r(1)])
  then obtain resp1 where r1: "fst (post_detail demo_store 100 1) = Inr resp1" ..
  have c: "cat_news \<in> set (categories demo_store)" "is_published cat_news"
    by (simp_all add: demo_defs)
  have s: "slug cat_news = ''news''" by (simp add: demo_defs)
  from category_posts_found [OF wf c, of 100]
  obtain resp2 where r2: "fst (category_posts demo_store 100 ''news'') = Inr resp2"
    unfolding s ..
  note vc = view_contexts [of demo_store 100 0 1 resp1 "''news''" resp2]
  from vc [THEN conjunct2, THEN conjunct1, THEN mp, OF r1]
  have d1: "dom (context_dict resp1) = {''post''}" by blast
  from vc [THEN conjunct2, THEN conjunct2, THEN mp, OF r2]
  have d2: "dom (context_dict resp2) = {''category'', ''post_list''}" by blast
  from r1 d1 r2 d2 show ?thesis by blast
qed




text \<open>
  C6. As stated the claim fails for \<open>index\<close>: once its \<open>pub_date\<close> has passed, a post
  is still absent from the first \<open>n\<close> posts when \<open>n\<close> later posts are listed before it.
\<close>

theorem past_post_beyond_limit_not_listed:
  "wf_store demo_store \<and> post_a \<in> set (posts demo_store) \<and> is_published post_a \<and>
   cat_news \<in> set (categories demo_store) \<and> category_id post_a = Some (pk cat_news) \<and>
   is_published cat_news \<and> 85 < pub_date post_a \<and> pub_date post_a < 200 \<and> (0::nat) < 1 \<and>
   post_a \<notin> row ` set (post_list_of (index demo_store 85 1)) \<and>
   post_a \<notin> row ` set (post_list_of (index demo_store 200 1))"
proof -
  have "map row (post_list_of (index demo_store 200 1)) = [post_b]"
    by (simp add: post_list_of_index take_map [symmetric] get_queryset_demo_200)
  then have "set (map row (post_list_of (index demo_store 200 1))) = {post_b}" by simp
  moreover have "post_a \<noteq> post_b" by (simp add: demo_defs)
  ultimately have late: "post_a \<notin> row ` set (post_list_of (index demo_store 200 1))" by simp
  have early: "post_a \<notin> row ` set (post_list_of (index demo_store 85 1))"
    by (simp add: post_list_of_index get_queryset_demo_85)
  have "post_a \<in> set (posts demo_store)" "is_published post_a"
    "cat_news \<in> set (categories demo_store)" "category_id post_a = Some (pk cat_news)"
    "is_published cat_news" "85 < pub_date post_a" "pub_date post_a < 200"
    by (simp_all add: demo_defs)
  with wf_demo_store early late show ?thesis by simp
qed

text \<open>
  C6, amended. In a store with referential integrity, let \<open>p\<close> be a published post
  in a published category \<open>c\<close>. Evaluated at a time \<open>t1\<close> not after \<open>pub_date p\<close>,
  \<open>p\<close> is absent from the published queryset, from \<open>index\<close> and from
  \<open>category_posts\<close> for the slug of \<open>c\<close>. Evaluated at a time \<open>t2\<close> after
  \<open>pub_date p\<close>, on the same store, \<open>p\<close> is in the published queryset and in
  \<open>category_posts\<close> for that slug, and it is in \<open>index\<close> with limit \<open>n\<close> whenever at
  most \<open>n\<close> posts of the published queryset have a \<open>pub_date\<close> not before that of \<open>p\<close>.
\<close>

theorem post_appears_once_pub_date_passed:
  assumes wf: "wf_store st" and p: "p \<in> set (posts st)" and pp: "is_published p"
    and c: "c \<in> set (categories st)" and pc: "category_id p = Some (pk c)"
    and cp: "is_published c" and t1: "t1 \<le> pub_date p" and t2: "pub_date p < t2"
  shows "p \<notin> row ` set (get_queryset st t1) \<and>
         p \<notin> row ` set (post_list_of (index st t1 n)) \<and>
         p \<notin> row ` set (post_list_of (category_posts st t1 (slug c))) \<and>
         p \<in> row ` set (get_queryset st t2) \<and>
         p \<in> row ` set (post_list_of (category_posts st t2 (slug c))) \<and>
         (length (filter (\<lambda>r. pub_date p \<le> pub_date (row r)) (get_queryset st t2)) \<le> n \<longrightarrow>
            p \<in> row ` set (post_list_of (index st t2 n)))"
proof (intro conjI impI)
  from t1 show absent: "p \<notin> row ` set (get_queryset st t1)"
    unfolding published_row_iff [OF wf] by simp
  have "set (post_list_of (index st t1 n)) \<subseteq> set (get_queryset st t1)"
    unfolding post_list_of_index by (rule set_take_subset)
  with absent show "p \<notin> row ` set (post_list_of (index st t1 n))" by blast
  have "set (post_list_of (category_posts st t1 (slug c))) \<subseteq> set (get_queryset st t1)"
    unfolding post_list_of_category_posts [OF wf c cp] by simp
  with absent show "p \<notin> row ` set (post_list_of (category_posts st t1 (slug c)))" by blast
next
  from p pp t2 c pc cp
  have "\<exists>r \<in> set (get_queryset st t2). row r = p \<and> category r = Some c"
    unfolding published_instance_iff [OF wf] by simp
  then obtain r where r: "r \<in> set (get_queryset st t2)" "row r = p" "category r = Some c"
    by blast
  from r(1,2) show "p \<in> row ` set (get_queryset st t2)" by force
  from r(1,3) have "r \<in> set (post_list_of (category_posts st t2 (slug c)))"
    unfolding post_list_of_category_posts [OF wf c cp] by simp
  with r(2) show "p \<in> row ` set (post_list_of (category_posts st t2 (slug c)))" by force
  assume "length (filter (\<lambda>r. pub_date p \<le> pub_date (row r)) (get_queryset st t2)) \<le> n"
  with r(2)
  have "length (filter (\<lambda>y. pub_date (row r) \<le> pub_date (row y)) (get_queryset st t2)) \<le> n"
    by simp
  with sorted_get_queryset r(1) have "r \<in> set (take n (get_queryset st t2))"
    by (rule in_take_sorted_desc)
  with r(2) show "p \<in> row ` set (post_list_of (index st t2 n))"
    unfolding post_list_of_index by force
qed

theorem post_appears_once_pub_date_passed_witness:
  "wf_store demo_store \<and>
   post_a \<notin> row ` set (post_list_of (index demo_store 85 5)) \<and>
   post_a \<notin> row ` set (post_list_of (category_posts demo_store 85 ''news'')) \<and>
   post_a \<in> row ` set (post_list_of (index demo_store 100 5)) \<and>
   post_a \<in> row ` set (post_list_of (category_posts demo_store 100 ''news''))"
proof -
  have wf: "wf_store demo_store" by (rule wf_demo_store)
  have h: "post_a \<in> set (posts demo_store)" "is_published post_a"
    "cat_news \<in> set (categories demo_store)" "category_id post_a = Some (pk cat_news)"
    "is_published cat_news" "85 \<le> pub_date post_a" "pub_date post_a < 100"
    by (simp_all add: demo_defs)
  have s: "slug cat_news = ''news''" by (simp add: demo_defs)
  have "length (get_queryset demo_store 100) = length (map row (get_queryset demo_store 100))"
    by simp
  also have "\<dots> = 2" unfolding get_queryset_demo_100 by simp
  finally have "length (get_queryset demo_store 100) = 2" .
  moreover have "length (filter (\<lambda>r. pub_date post_a \<le> pub_date (row r))
      (get_queryset demo_store 100)) \<le> length (get_queryset demo_store 100)"
    by (rule length_filter_le)
  ultimately have n: "length (filter (\<lambda>r. pub_date post_a \<le> pub_date (row r))
      (get_queryset demo_store 100)) \<le> 5" by simp
  from post_appears_once_pub_date_passed [OF wf h, of 5] n show ?thesis
    unfolding s using wf by blast
qed

end
